theory Spec2Isabelle
  imports Complex_Main "HOL-Library.Sublist"
begin

section \<open>Numeric conventions\<close>

text \<open>
  The two programs of the repository (the batch collector \<^verbatim>\<open>hv_collector.py\<close> and the
  screener \<^verbatim>\<open>hv_screener_enhanced.py\<close>) compute with IEEE doubles through numpy and
  pandas. This development reads a finite double as the real number it denotes and
  computes exactly: a float is a \<^typ>\<open>real\<close>, and a cell of a pandas column that may hold
  the missing-value marker NaN is a \<^typ>\<open>real option\<close> with \<open>None\<close> for NaN. Rounding is
  not modelled: a statement that two computed doubles are equal is settled here only
  where the computation is exact in doubles as well.
\<close>

section \<open>The options pricer (hv\_screener\_enhanced.py, black\_scholes)\<close>

text \<open>
  \<^verbatim>\<open>scipy.stats.norm.pdf\<close> and \<^verbatim>\<open>scipy.stats.norm.cdf\<close> are the density and the
  distribution function of the standard normal law. The distribution function is given
  by its Maclaurin series, which converges for every argument.
\<close>

definition norm_pdf :: "real \<Rightarrow> real" where
  "norm_pdf x = exp (- (x ^ 2) / 2) / sqrt (2 * pi)"

definition norm_cdf :: "real \<Rightarrow> real" where
  "norm_cdf x =
     1 / 2 + (\<Sum>n. (- 1) ^ n * x ^ (2 * n + 1) / (fact n * 2 ^ n * real (2 * n + 1)))
               / sqrt (2 * pi)"

text \<open>
  \<^verbatim>\<open>black_scholes(S, K, T, r, sigma, option_type)\<close> returns the tuple
  (price, delta, gamma, theta, vega). The price and the delta take the call branch
  exactly when \<open>option_type\<close> is the string \<open>call\<close>; the carry term of theta takes the
  put branch exactly when it is the string \<open>put\<close>.
\<close>

definition black_scholes ::
  "real \<Rightarrow> real \<Rightarrow> real \<Rightarrow> real \<Rightarrow> real \<Rightarrow> string \<Rightarrow> real \<times> real \<times> real \<times> real \<times> real" where
  "black_scholes S K T r sigma option_type =
     (if T \<le> 0 \<or> sigma \<le> 0 then (0, 0, 0, 0, 0)
      else
        let d1 = (ln (S / K) + (r + 0.5 * sigma ^ 2) * T) / (sigma * sqrt T);
            d2 = d1 - sigma * sqrt T;
            price = (if option_type = ''call''
                     then S * norm_cdf d1 - K * exp (- r * T) * norm_cdf d2
                     else K * exp (- r * T) * norm_cdf (- d2) - S * norm_cdf (- d1));
            delta = (if option_type = ''call'' then norm_cdf d1 else - norm_cdf (- d1));
            gamma = norm_pdf d1 / (S * sigma * sqrt T);
            vega = S * norm_pdf d1 * sqrt T / 100;
            theta0 = - (S * norm_pdf d1 * sigma / (2 * sqrt T)) / 365;
            theta = (if option_type = ''put''
                     then theta0 - r * K * exp (- r * T) * norm_cdf (- d2) / 365
                     else theta0 - r * K * exp (- r * T) * norm_cdf d2 / 365)
        in (price, delta, gamma, theta, vega))"

definition bs_price :: "real \<times> real \<times> real \<times> real \<times> real \<Rightarrow> real" where
  "bs_price out = fst out"

definition bs_gamma :: "real \<times> real \<times> real \<times> real \<times> real \<Rightarrow> real" where
  "bs_gamma out = fst (snd (snd out))"

definition bs_theta :: "real \<times> real \<times> real \<times> real \<times> real \<Rightarrow> real" where
  "bs_theta out = fst (snd (snd (snd out)))"

definition bs_vega :: "real \<times> real \<times> real \<times> real \<times> real \<Rightarrow> real" where
  "bs_vega out = snd (snd (snd (snd out)))"

section \<open>Series arithmetic of numpy and pandas\<close>

type_synonym cell = "real option"

text \<open>\<^verbatim>\<open>Series.dropna()\<close>: the observations of a column, NaN cells left out.\<close>

fun dropna :: "cell list \<Rightarrow> real list" where
  "dropna [] = []"
| "dropna (None # xs) = dropna xs"
| "dropna (Some x # xs) = x # dropna xs"

definition mean :: "real list \<Rightarrow> real" where
  "mean xs = sum_list xs / real (length xs)"

text \<open>The sample standard deviation (one delta degree of freedom, the pandas default).\<close>

definition sample_std :: "real list \<Rightarrow> real" where
  "sample_std xs = sqrt (sum_list (map (\<lambda>x. (x - mean xs) ^ 2) xs) / (real (length xs) - 1))"

text \<open>
  \<^verbatim>\<open>Series.std()\<close> and \<^verbatim>\<open>Series.mean()\<close> skip NaN cells; the standard deviation of
  fewer than two observations and the mean of none are NaN.
\<close>

definition series_std :: "cell list \<Rightarrow> cell" where
  "series_std xs = (let obs = dropna xs in if length obs \<le> 1 then None else Some (sample_std obs))"

definition series_mean :: "cell list \<Rightarrow> cell" where
  "series_mean xs = (let obs = dropna xs in if obs = [] then None else Some (mean obs))"

text \<open>\<^verbatim>\<open>Series.shift(1)\<close>: every cell moves one position down, the first becomes NaN.\<close>

definition shift1 :: "cell list \<Rightarrow> cell list" where
  "shift1 xs = (if xs = [] then [] else None # butlast xs)"

text \<open>
  \<^verbatim>\<open>np.log(a / b)\<close> on two cells. NaN propagates, and the logarithm of a negative
  quotient is NaN. A zero price makes numpy produce an infinity; the data model takes
  prices to be positive, this development has no infinite cell, and the quotient of such
  a pair is undefined here as well.
\<close>

definition np_log_ratio :: "cell \<Rightarrow> cell \<Rightarrow> cell" where
  "np_log_ratio a b =
     (case (a, b) of
        (Some x, Some y) \<Rightarrow> if 0 < x / y then Some (ln (x / y)) else None
      | _ \<Rightarrow> None)"

text \<open>\<^verbatim>\<open>np.log(prices / prices.shift(1))\<close>.\<close>

definition log_returns :: "cell list \<Rightarrow> cell list" where
  "log_returns prices = map2 np_log_ratio prices (shift1 prices)"

text \<open>\<^verbatim>\<open>DataFrame.tail(n)\<close>: the last \<open>n\<close> rows, all of them when there are fewer.\<close>

definition tail :: "nat \<Rightarrow> 'a list \<Rightarrow> 'a list" where
  "tail n xs = drop (length xs - n) xs"

section \<open>The collector's volatility engine (hv\_collector.py)\<close>

text \<open>
  A frame of price data as the three fetchers build it: every row has a date and a
  price, and the columns \<open>volume\<close> (with \<open>quote_volume\<close> and \<open>trades\<close>), \<open>funding_rate\<close>,
  \<open>open_interest\<close> (with \<open>open_interest_value\<close>), \<open>high\<close> and \<open>low\<close> may or may not be
  present. A cell of an absent column is never read. Dates are timestamps.
\<close>

record price_row =
  date :: int
  price :: cell
  volume :: cell
  quote_volume :: cell
  trades :: cell
  funding_rate :: cell
  open_interest :: cell
  open_interest_value :: cell
  high :: cell
  low :: cell

record price_frame =
  rows :: "price_row list"
  has_volume :: bool
  has_funding :: bool
  has_oi :: bool
  has_high :: bool
  has_low :: bool

text \<open>
  \<^verbatim>\<open>calculate_historical_volatility(prices, window)\<close>; the window argument is not used
  by the body.
\<close>

definition calculate_historical_volatility :: "cell list \<Rightarrow> nat \<Rightarrow> cell" where
  "calculate_historical_volatility prices window =
     (if length prices < 2 then None
      else map_option (\<lambda>volatility. volatility * sqrt 365) (series_std (log_returns prices)))"

text \<open>
  \<^verbatim>\<open>calculate_parkinson_volatility(data)\<close>, on the frame's column flags and the rows of
  the slice.
\<close>

definition calculate_parkinson_volatility :: "price_frame \<Rightarrow> price_row list \<Rightarrow> cell" where
  "calculate_parkinson_volatility df data =
     (if has_high df \<and> has_low df then
        let hl_ratio = map (\<lambda>r. map_option (\<lambda>l. l ^ 2) (np_log_ratio (high r) (low r))) data
        in map_option (\<lambda>m. sqrt (m / (4 * ln 2) * 365)) (series_mean hl_ratio)
      else None)"

text \<open>
  The keys of an output record beyond \<open>symbol\<close>, \<open>date\<close> and \<open>close_price\<close>;
  \<open>HV w\<close> is the key \<^verbatim>\<open>hv_{w}d\<close> and \<open>ParkinsonVol w\<close> the key \<^verbatim>\<open>parkinson_vol_{w}d\<close>.
  A record keeps its keys in insertion order; a key that was never set is absent.
\<close>

datatype metric_key =
  Volume | QuoteVolume | Trades | FundingRate | AnnualizedFundingRate
  | OpenInterest | OpenInterestValue | HV nat | ParkinsonVol nat

record hv_record =
  rec_symbol :: string
  rec_date :: int
  close_price :: cell
  metrics :: "(metric_key \<times> cell) list"

definition windows :: "nat list" where
  "windows = [7, 14, 30, 60, 90]"

text \<open>
  \<^verbatim>\<open>price_data[price_data['date'] <= date].tail(window)\<close>: the trailing slice of a date.
\<close>

definition historical_data :: "price_row list \<Rightarrow> int \<Rightarrow> nat \<Rightarrow> price_row list" where
  "historical_data price_data d window = tail window (filter (\<lambda>r. date r \<le> d) price_data)"

text \<open>The body of the loop over the windows: the keys one window adds to a record.\<close>

definition window_metrics ::
  "price_frame \<Rightarrow> price_row list \<Rightarrow> int \<Rightarrow> nat \<Rightarrow> (metric_key \<times> cell) list" where
  "window_metrics df price_data d window =
     (let hist = historical_data price_data d window in
      if max 2 (window div 2) \<le> length hist then
        (HV window, calculate_historical_volatility (map price hist) window)
        # (if has_high df \<and> has_low df
           then [(ParkinsonVol window, calculate_parkinson_volatility df hist)] else [])
      else
        (HV window, None)
        # (if has_volume df then [(ParkinsonVol window, None)] else []))"

text \<open>The body of the loop over the rows: the record of one row.\<close>

definition row_record :: "price_frame \<Rightarrow> price_row list \<Rightarrow> string \<Rightarrow> price_row \<Rightarrow> hv_record" where
  "row_record df price_data symbol row =
     \<lparr> rec_symbol = symbol, rec_date = date row, close_price = price row,
       metrics =
         (if has_volume df
          then [(Volume, volume row), (QuoteVolume, quote_volume row), (Trades, trades row)]
          else [])
         @ (if has_funding df
            then (FundingRate, funding_rate row)
                 # (case funding_rate row of
                      None \<Rightarrow> []
                    | Some f \<Rightarrow> [(AnnualizedFundingRate, Some (f * 3 * 365))])
            else [])
         @ (if has_oi df
            then [(OpenInterest, open_interest row), (OpenInterestValue, open_interest_value row)]
            else [])
         @ concat (map (window_metrics df price_data (date row)) windows) \<rparr>"

text \<open>
  \<^verbatim>\<open>calculate_hv_metrics(price_data, symbol)\<close>. The frame is sorted by date and the rows
  without a price are dropped after the test on the number of rows. The column
  \<open>log_return\<close> that the function adds to the frame is read by nothing: every window
  recomputes the returns inside its own slice. The sort is
  \<^const>\<open>sort_key\<close>; on a frame with distinct dates every sort gives the same order. A
  missing frame (\<open>None\<close>) returns the empty list as a frame of fewer than two rows does.
\<close>

definition calculate_hv_metrics :: "price_frame \<Rightarrow> string \<Rightarrow> hv_record list" where
  "calculate_hv_metrics df symbol =
     (if length (rows df) < 2 then []
      else
        let price_data = filter (\<lambda>r. price r \<noteq> None) (sort_key date (rows df))
        in map (row_record df price_data symbol) price_data)"

text \<open>Reading a key of a record: \<open>None\<close> when the key is absent.\<close>

definition get :: "hv_record \<Rightarrow> metric_key \<Rightarrow> cell option" where
  "get record k = map_of (metrics record) k"

text \<open>
  The log returns between the consecutive prices of a list, as the specification words
  them: \<open>ln (p\<^sub>j\<^sub>+\<^sub>1 / p\<^sub>j)\<close> for every position but the last.
\<close>

definition consecutive_log_returns :: "real list \<Rightarrow> real list" where
  "consecutive_log_returns ps = map (\<lambda>(q, p). ln (q / p)) (zip (tl ps) ps)"

section \<open>The collector's fallback over the providers (hv\_collector.py, collect\_asset\_data)\<close>

text \<open>
  The three fetchers talk to the network. What a provider answers for an asset is an
  input of the model: a fetcher is a function to an optional frame, \<open>None\<close> when the
  fetcher gives up. The state threaded through \<^verbatim>\<open>collect_asset_data\<close> is the result
  dictionary and the trace of the calls made, fetches and sleeps, in order.
\<close>

datatype provider = CoinGecko | Binance | Kraken

datatype event = Fetched provider | Slept real

record fetchers =
  fetch_coingecko_data :: "string \<Rightarrow> string \<Rightarrow> price_frame option"
  fetch_binance_futures_data :: "string \<Rightarrow> price_frame option"
  fetch_kraken_options_iv :: "string \<Rightarrow> price_frame option"

text \<open>A row of the asset list; the CoinGecko identifier may be missing (\<open>None\<close>).\<close>

record asset_row =
  coin_symbol :: string
  cg_api_id :: "string option"

record asset_data =
  asset_symbol :: string
  coingecko_id :: "string option"
  data_sources :: "string list"
  price_data :: "price_frame option"

text \<open>\<^verbatim>\<open>data is not None and len(data) > 0\<close>.\<close>

definition usable :: "price_frame option \<Rightarrow> bool" where
  "usable d = (case d of None \<Rightarrow> False | Some f \<Rightarrow> 0 < length (rows f))"

text \<open>\<^verbatim>\<open>not pd.isna(cg_id) and cg_id not in ['N/A', '']\<close>.\<close>

definition has_cg_id :: "asset_row \<Rightarrow> bool" where
  "has_cg_id row = (case cg_api_id row of None \<Rightarrow> False | Some i \<Rightarrow> i \<noteq> ''N/A'' \<and> i \<noteq> [])"

definition try_coingecko ::
  "fetchers \<Rightarrow> asset_row \<Rightarrow> asset_data \<times> event list \<Rightarrow> asset_data \<times> event list" where
  "try_coingecko env row st =
     (case st of (result, trace) \<Rightarrow>
        if has_cg_id row then
          let cg_data = fetch_coingecko_data env (the (cg_api_id row)) (coin_symbol row);
              trace1 = trace @ [Fetched CoinGecko]
          in if usable cg_data
             then (result \<lparr> price_data := cg_data,
                            data_sources := data_sources result @ [''coingecko''] \<rparr>,
                   trace1 @ [Slept 1.2])
             else (result, trace1)
        else (result, trace))"

definition try_binance ::
  "fetchers \<Rightarrow> asset_row \<Rightarrow> asset_data \<times> event list \<Rightarrow> asset_data \<times> event list" where
  "try_binance env row st =
     (case st of (result, trace) \<Rightarrow>
        if price_data result = None then
          let binance_data = fetch_binance_futures_data env (coin_symbol row);
              trace1 = trace @ [Fetched Binance]
          in if usable binance_data
             then (result \<lparr> price_data := binance_data,
                            data_sources := data_sources result @ [''binance''] \<rparr>,
                   trace1 @ [Slept 0.5])
             else (result, trace1)
        else (result, trace))"

definition try_kraken ::
  "fetchers \<Rightarrow> asset_row \<Rightarrow> asset_data \<times> event list \<Rightarrow> asset_data \<times> event list" where
  "try_kraken env row st =
     (case st of (result, trace) \<Rightarrow>
        if price_data result = None then
          let kraken_data = fetch_kraken_options_iv env (coin_symbol row);
              trace1 = trace @ [Fetched Kraken]
          in if usable kraken_data
             then (result \<lparr> price_data := kraken_data,
                            data_sources := data_sources result @ [''kraken''] \<rparr>,
                   trace1 @ [Slept 1])
             else (result, trace1)
        else (result, trace))"

definition collect_asset_data :: "fetchers \<Rightarrow> asset_row \<Rightarrow> asset_data \<times> event list" where
  "collect_asset_data env row =
     try_kraken env row
       (try_binance env row
          (try_coingecko env row
             (\<lparr> asset_symbol = coin_symbol row, coingecko_id = cg_api_id row,
                 data_sources = [], price_data = None \<rparr>, [])))"

text \<open>The providers fetched from, in the order of the calls.\<close>

fun queried :: "event list \<Rightarrow> provider list" where
  "queried [] = []"
| "queried (Fetched p # es) = p # queried es"
| "queried (Slept t # es) = queried es"

text \<open>What a provider answers for an asset, and the tag the collector gives it.\<close>

fun response :: "fetchers \<Rightarrow> asset_row \<Rightarrow> provider \<Rightarrow> price_frame option" where
  "response env row CoinGecko = fetch_coingecko_data env (the (cg_api_id row)) (coin_symbol row)"
| "response env row Binance = fetch_binance_futures_data env (coin_symbol row)"
| "response env row Kraken = fetch_kraken_options_iv env (coin_symbol row)"

fun tag :: "provider \<Rightarrow> string" where
  "tag CoinGecko = ''coingecko''"
| "tag Binance = ''binance''"
| "tag Kraken = ''kraken''"

text \<open>The providers an asset can be fetched from, in priority order.\<close>

definition priority :: "asset_row \<Rightarrow> provider list" where
  "priority row = (if has_cg_id row then [CoinGecko] else []) @ [Binance, Kraken]"

section \<open>The screener's volatility engine (hv\_screener\_enhanced.py, calculate\_hv\_metrics)\<close>

text \<open>
  The frame the screener computes on, as \<^verbatim>\<open>get_crypto_data_coingecko\<close> builds it: rows
  indexed by a timestamp, with the columns open, high, low, close and volume. The
  function adds the columns \<open>log_ret\<close>, one \<open>hv_w\<close> per window, \<open>rms_2_3\<close> and
  \<open>rms_7_14\<close> when their two windows are configured, and \<open>rms_vol\<close>.
\<close>

record ohlcv_row =
  timestamp :: int
  ohlcv_open :: cell
  ohlcv_high :: cell
  ohlcv_low :: cell
  close :: cell
  ohlcv_volume :: cell

record hv_row = ohlcv_row +
  log_ret :: cell
  hv :: "(nat \<times> cell) list"
  rms_2_3 :: "cell option"
  rms_7_14 :: "cell option"
  rms_vol :: cell

datatype py_error = ValueError

text \<open>
  \<^verbatim>\<open>Series.rolling(window=w).std()\<close>: at every position the window is the last \<open>w\<close>
  cells up to and including it (fewer at the head of the column); the value is NaN
  unless the window holds at least \<open>w\<close> observations (the default \<open>min_periods\<close>) and
  more than one.
\<close>

definition rolling_window :: "nat \<Rightarrow> cell list \<Rightarrow> nat \<Rightarrow> cell list" where
  "rolling_window w xs i = drop (Suc i - w) (take (Suc i) xs)"

definition rolling_std_at :: "nat \<Rightarrow> cell list \<Rightarrow> nat \<Rightarrow> cell" where
  "rolling_std_at w xs i =
     (let obs = dropna (rolling_window w xs i)
      in if w \<le> length obs \<and> 1 < length obs then Some (sample_std obs) else None)"

definition rolling_std :: "nat \<Rightarrow> cell list \<Rightarrow> cell list" where
  "rolling_std w xs = map (rolling_std_at w xs) [0..<length xs]"

text \<open>\<^verbatim>\<open>np.sqrt((a**2 + b**2) / 2)\<close> on two cells.\<close>

definition rms :: "cell \<Rightarrow> cell \<Rightarrow> cell" where
  "rms a b = (case (a, b) of (Some x, Some y) \<Rightarrow> Some (sqrt ((x ^ 2 + y ^ 2) / 2)) | _ \<Rightarrow> None)"

text \<open>The column \<open>hv_w\<close>: the rolling standard deviation times the annual factor.\<close>

definition hv_column :: "cell list \<Rightarrow> nat \<Rightarrow> cell list" where
  "hv_column log_ret_col w = map (map_option (\<lambda>v. v * sqrt 365)) (rolling_std w log_ret_col)"

text \<open>The value of the column \<open>hv_w\<close> of the screener at the position \<open>i\<close>.\<close>

definition hv_at :: "ohlcv_row list \<Rightarrow> nat \<Rightarrow> nat \<Rightarrow> cell" where
  "hv_at df w i =
     map_option (\<lambda>v. v * sqrt 365) (rolling_std_at w (log_returns (map close df)) i)"

text \<open>\<^verbatim>\<open>DataFrame.dropna()\<close> keeps a row when none of its cells is NaN.\<close>

definition complete_row :: "hv_row \<Rightarrow> bool" where
  "complete_row r =
     (ohlcv_open r \<noteq> None \<and> ohlcv_high r \<noteq> None \<and> ohlcv_low r \<noteq> None \<and> close r \<noteq> None
      \<and> ohlcv_volume r \<noteq> None \<and> log_ret r \<noteq> None
      \<and> list_all (\<lambda>e. snd e \<noteq> None) (hv r)
      \<and> rms_2_3 r \<noteq> Some None \<and> rms_7_14 r \<noteq> Some None \<and> rms_vol r \<noteq> None)"

text \<open>The frame with every new column, before the rows with a NaN are dropped.\<close>

definition with_metrics :: "ohlcv_row list \<Rightarrow> nat list \<Rightarrow> hv_row list" where
  "with_metrics df vol_windows =
     (let log_ret_col = log_returns (map close df);
          rms_2_3_col = (if 2 \<in> set vol_windows \<and> 3 \<in> set vol_windows
                         then Some (map2 rms (hv_column log_ret_col 2) (hv_column log_ret_col 3))
                         else None);
          rms_7_14_col = (if 7 \<in> set vol_windows \<and> 14 \<in> set vol_windows
                          then Some (map2 rms (hv_column log_ret_col 7) (hv_column log_ret_col 14))
                          else None);
          rms_vol_col = (case rms_7_14_col of
                           Some c \<Rightarrow> c
                         | None \<Rightarrow> (case rms_2_3_col of
                                       Some c \<Rightarrow> c
                                     | None \<Rightarrow> replicate (length df) None))
      in map (\<lambda>i.
           \<lparr> timestamp = timestamp (df ! i), ohlcv_open = ohlcv_open (df ! i),
             ohlcv_high = ohlcv_high (df ! i), ohlcv_low = ohlcv_low (df ! i),
             close = close (df ! i), ohlcv_volume = ohlcv_volume (df ! i),
             log_ret = log_ret_col ! i,
             hv = map (\<lambda>w. (w, hv_column log_ret_col w ! i)) vol_windows,
             rms_2_3 = map_option (\<lambda>c. c ! i) rms_2_3_col,
             rms_7_14 = map_option (\<lambda>c. c ! i) rms_7_14_col,
             rms_vol = rms_vol_col ! i \<rparr>) [0..<length df])"

text \<open>
  \<^verbatim>\<open>calculate_hv_metrics(df, vol_windows)\<close> of the screener. \<^verbatim>\<open>max\<close> of an empty list
  of windows raises \<^verbatim>\<open>ValueError\<close>; an empty frame returns before that.
\<close>

definition screener_calculate_hv_metrics ::
  "ohlcv_row list \<Rightarrow> nat list \<Rightarrow> py_error + hv_row list" where
  "screener_calculate_hv_metrics df vol_windows =
     (if df = [] then Inr []
      else if vol_windows = [] then Inl ValueError
      else if length df < Max (set vol_windows) + 1 then Inr []
      else Inr (filter complete_row (with_metrics df vol_windows)))"

text \<open>Every price of a frame multiplied by a constant; the volume is not a price.\<close>

definition scale_prices :: "real \<Rightarrow> ohlcv_row list \<Rightarrow> ohlcv_row list" where
  "scale_prices c df =
     map (\<lambda>r. r \<lparr> ohlcv_open := map_option (\<lambda>p. c * p) (ohlcv_open r),
                  ohlcv_high := map_option (\<lambda>p. c * p) (ohlcv_high r),
                  ohlcv_low := map_option (\<lambda>p. c * p) (ohlcv_low r),
                  close := map_option (\<lambda>p. c * p) (close r) \<rparr>) df"

text \<open>The metric columns of a row of the result, with the timestamp that indexes it.\<close>

definition metric_columns ::
  "hv_row \<Rightarrow> int \<times> cell \<times> (nat \<times> cell) list \<times> cell option \<times> cell option \<times> cell" where
  "metric_columns r = (timestamp r, log_ret r, hv r, rms_2_3 r, rms_7_14 r, rms_vol r)"

text \<open>The high and the low of every row of a slice multiplied by a constant.\<close>

definition scale_high_low :: "real \<Rightarrow> price_row list \<Rightarrow> price_row list" where
  "scale_high_low c data =
     map (\<lambda>r. r \<lparr> high := map_option (\<lambda>p. c * p) (high r),
                  low := map_option (\<lambda>p. c * p) (low r) \<rparr>) data"

section \<open>Example inputs\<close>

text \<open>A row with a date and a price only, and a frame with no optional column.\<close>

definition priced_row :: "int \<Rightarrow> real \<Rightarrow> price_row" where
  "priced_row d p =
     \<lparr> date = d, price = Some p, volume = None, quote_volume = None, trades = None,
       funding_rate = None, open_interest = None, open_interest_value = None,
       high = None, low = None \<rparr>"

definition plain_frame :: "price_row list \<Rightarrow> price_frame" where
  "plain_frame rs =
     \<lparr> rows = rs, has_volume = False, has_funding = False, has_oi = False,
       has_high = False, has_low = False \<rparr>"

definition example_fetchers :: fetchers where
  "example_fetchers =
     \<lparr> fetch_coingecko_data = (\<lambda>coin_id symbol. None),
       fetch_binance_futures_data = (\<lambda>symbol. Some (plain_frame [priced_row 1 100, priced_row 2 101])),
       fetch_kraken_options_iv = (\<lambda>symbol. Some (plain_frame [priced_row 1 90])) \<rparr>"

definition example_asset :: asset_row where
  "example_asset = \<lparr> coin_symbol = ''BTC'', cg_api_id = Some ''bitcoin'' \<rparr>"

text \<open>A series of prices on consecutive dates, the first on date \<open>d\<close>.\<close>

fun dated_rows :: "int \<Rightarrow> real list \<Rightarrow> price_row list" where
  "dated_rows d [] = []"
| "dated_rows d (p # ps) = priced_row d p # dated_rows (d + 1) ps"

definition series_frame :: "real list \<Rightarrow> price_frame" where
  "series_frame ps = plain_frame (dated_rows 1 ps)"

text \<open>
  A screener frame of closing prices on consecutive timestamps, the first at \<open>t\<close>; open,
  high and low repeat the close, as \<^verbatim>\<open>get_crypto_data_coingecko\<close> fills them.
\<close>

fun close_rows :: "int \<Rightarrow> real list \<Rightarrow> ohlcv_row list" where
  "close_rows t [] = []"
| "close_rows t (p # ps) =
     \<lparr> timestamp = t, ohlcv_open = Some p, ohlcv_high = Some p, ohlcv_low = Some p,
       close = Some p, ohlcv_volume = Some 0 \<rparr> # close_rows (t + 1) ps"

section \<open>Properties of the options pricer\<close>

lemma norm_cdf_zero: "norm_cdf 0 = 1 / 2"
  by (simp add: norm_cdf_def)

lemma black_scholes_greeks_side_independent:
  "bs_gamma (black_scholes S K T r sigma ''call'') = bs_gamma (black_scholes S K T r sigma ''put'')"
  "bs_vega (black_scholes S K T r sigma ''call'') = bs_vega (black_scholes S K T r sigma ''put'')"
  by (simp_all add: black_scholes_def bs_gamma_def bs_vega_def Let_def)

text \<open>
  Claim C4. Whenever the time to expiry is at most zero or the volatility is at most
  zero, the pricer returns zero for the price and for every Greek, through the test at
  the head of the function and for either side.
\<close>

theorem black_scholes_degenerate:
  "T \<le> 0 \<or> sigma \<le> 0 \<Longrightarrow> black_scholes S K T r sigma option_type = (0, 0, 0, 0, 0)"
  by (simp add: black_scholes_def)

theorem black_scholes_degenerate_witness:
  "black_scholes 100 100 0 0.05 0.3 ''call'' = (0, 0, 0, 0, 0)
   \<and> black_scholes 100 100 1 0.05 0 ''call'' = (0, 0, 0, 0, 0)"
  using black_scholes_degenerate [of 0 "0.3" 100 100 "0.05" "''call''"]
    black_scholes_degenerate [of 1 0 100 100 "0.05" "''call''"]
  by simp

text \<open>
  In exact arithmetic the call and the put struck at the spot have the same price when
  the rate is zero, for a positive spot, time to expiry and volatility: there
  \<open>d2 = - d1\<close>. Claim C5 is about the two prices the program computes in doubles, which
  round the two sides differently and can differ in the last digits; rounding is outside
  this development, and the lemma says nothing about it.
\<close>

lemma black_scholes_atm_symmetry_exact:
  assumes "0 < S" and "0 < T" and "0 < sigma"
  shows "bs_price (black_scholes S S T 0 sigma ''call'')
       = bs_price (black_scholes S S T 0 sigma ''put'')"
proof -
  have "sigma * sqrt T * (sigma * sqrt T) = sigma ^ 2 * T"
    using assms by (simp add: power2_eq_square)
  then have half: "sigma ^ 2 * T / (2 * (sigma * sqrt T)) = sigma * sqrt T / 2"
    using assms by (simp add: field_simps)
  show ?thesis
    using assms by (simp add: black_scholes_def bs_price_def Let_def half)
qed

lemma black_scholes_theta_code:
  fixes S K T r sigma :: real
  defines "d1 \<equiv> (ln (S / K) + (r + 0.5 * sigma ^ 2) * T) / (sigma * sqrt T)"
  defines "theta0 \<equiv> - (S * norm_pdf d1 * sigma / (2 * sqrt T)) / 365"
  assumes "0 < T" and "0 < sigma"
  shows "bs_theta (black_scholes S K T r sigma ''call'')
           = theta0 - r * K * exp (- r * T) * norm_cdf (d1 - sigma * sqrt T) / 365"
    and "bs_theta (black_scholes S K T r sigma ''put'')
           = theta0 - r * K * exp (- r * T) * norm_cdf (- (d1 - sigma * sqrt T)) / 365"
  using assms(3,4) unfolding d1_def theta0_def
  by (simp_all add: black_scholes_def bs_theta_def Let_def)

text \<open>
  Claim C3. Gamma and vega do not depend on the side (the lemma above). For theta the
  claim asks that the discounted-strike carry term enter the put with the sign opposite
  to the call's, as in the Black-Scholes formulas: the call has
  \<open>theta0 - r K exp (- r T) N(d2)\<close> and the put \<open>theta0 + r K exp (- r T) N(- d2)\<close>. The
  function subtracts the term on both sides. At spot and strike 100, one year, rate 0.02
  and volatility 0.2, where \<open>d2 = 0\<close>, the put's theta is \<open>theta0\<close> minus the carry term,
  differs from \<open>theta0\<close> plus the carry term, and equals the call's theta.
\<close>

theorem black_scholes_put_theta_carry_sign:
  "bs_theta (black_scholes 100 100 1 0.02 0.2 ''put'')
     = - (100 * norm_pdf 0.2 * 0.2 / (2 * sqrt 1)) / 365
       - 0.02 * 100 * exp (- 0.02 * 1) * norm_cdf 0 / 365
   \<and> bs_theta (black_scholes 100 100 1 0.02 0.2 ''put'')
     \<noteq> - (100 * norm_pdf 0.2 * 0.2 / (2 * sqrt 1)) / 365
       + 0.02 * 100 * exp (- 0.02 * 1) * norm_cdf 0 / 365
   \<and> bs_theta (black_scholes 100 100 1 0.02 0.2 ''put'')
     = bs_theta (black_scholes 100 100 1 0.02 0.2 ''call'')"
proof -
  have pos: "(0::real) < exp (- 0.02)" by simp
  show ?thesis
    using pos by (simp add: black_scholes_def bs_theta_def Let_def norm_cdf_zero power2_eq_square)
qed

section \<open>Properties of the fallback over the providers\<close>

text \<open>
  Claim C8. The providers fetched from are a prefix of the priority list (CoinGecko when
  the asset has a CoinGecko identifier, then Binance, then Kraken). When the result has
  price data, it is exactly the answer of the last provider fetched from, that answer is
  a non-empty frame, the result carries the tag of that provider alone, and every
  provider fetched from before it gave no usable answer; so no provider after the first
  usable one is fetched from and no frame is merged with another. When the result has no
  price data, every provider of the priority list was fetched from, none gave a usable
  answer, and the result carries no tag.
\<close>

theorem collect_asset_data_first_usable_wins:
  "prefix (queried (snd (collect_asset_data env row))) (priority row)
   \<and> (case price_data (fst (collect_asset_data env row)) of
        Some d \<Rightarrow>
          queried (snd (collect_asset_data env row)) \<noteq> []
          \<and> data_sources (fst (collect_asset_data env row))
              = [tag (last (queried (snd (collect_asset_data env row))))]
          \<and> response env row (last (queried (snd (collect_asset_data env row)))) = Some d
          \<and> rows d \<noteq> []
          \<and> (\<forall>q \<in> set (butlast (queried (snd (collect_asset_data env row)))).
                \<not> usable (response env row q))
      | None \<Rightarrow>
          data_sources (fst (collect_asset_data env row)) = []
          \<and> queried (snd (collect_asset_data env row)) = priority row
          \<and> (\<forall>q \<in> set (priority row). \<not> usable (response env row q)))"
  by (auto simp: collect_asset_data_def try_coingecko_def try_binance_def try_kraken_def
      priority_def usable_def Let_def split: option.splits)

theorem collect_asset_data_first_usable_wins_witness:
  "data_sources (fst (collect_asset_data example_fetchers example_asset)) = [''binance'']
   \<and> queried (snd (collect_asset_data example_fetchers example_asset)) = [CoinGecko, Binance]
   \<and> price_data (fst (collect_asset_data example_fetchers example_asset))
       = Some (plain_frame [priced_row 1 100, priced_row 2 101])"
  using collect_asset_data_first_usable_wins [of example_fetchers example_asset]
  by (simp add: collect_asset_data_def try_coingecko_def try_binance_def try_kraken_def
      example_fetchers_def example_asset_def has_cg_id_def usable_def plain_frame_def Let_def)

section \<open>Properties of the collector's volatility engine\<close>

lemma dropna_map_Some: "dropna (map Some xs) = xs"
  by (induction xs) simp_all

lemma dropna_None_Cons_map_Some: "dropna (None # map Some xs) = xs"
  by (simp add: dropna_map_Some)

lemma zip_butlast_right: "length xs < length ys \<Longrightarrow> zip xs (butlast ys) = zip xs ys"
  by (rule nth_equalityI) (simp_all add: nth_butlast)

lemma length_consecutive_log_returns: "length (consecutive_log_returns ps) = length ps - 1"
  by (simp add: consecutive_log_returns_def)

lemma np_log_ratio_positive:
  "0 < q \<Longrightarrow> 0 < p \<Longrightarrow> np_log_ratio (Some q) (Some p) = Some (ln (q / p))"
  by (simp add: np_log_ratio_def)

lemma log_returns_positive:
  assumes "\<forall>p \<in> set ps. 0 < p" and "ps \<noteq> []"
  shows "log_returns (map Some ps) = None # map Some (consecutive_log_returns ps)"
proof -
  obtain p qs where ps: "ps = p # qs" using assms(2) by (cases ps) auto
  have pos: "\<And>a b. (a, b) \<in> set (zip qs (p # qs)) \<Longrightarrow> 0 < a \<and> 0 < b"
  proof -
    fix a b assume "(a, b) \<in> set (zip qs (p # qs))"
    then have "a \<in> set qs" and "b \<in> set (p # qs)"
      by (auto dest: set_zip_leftD set_zip_rightD)
    then show "0 < a \<and> 0 < b" using assms(1) ps by auto
  qed
  have "map2 np_log_ratio (map Some qs) (butlast (map Some (p # qs)))
      = map2 np_log_ratio (map Some qs) (map Some (p # qs))"
    by (subst zip_butlast_right) simp_all
  also have "\<dots> = map (\<lambda>(a, b). np_log_ratio (Some a) (Some b)) (zip qs (p # qs))"
    by (subst zip_map_map) (simp add: split_def comp_def)
  also have "\<dots> = map (\<lambda>(a, b). Some (ln (a / b))) (zip qs (p # qs))"
    using pos by (auto simp: np_log_ratio_positive)
  also have "\<dots> = map Some (consecutive_log_returns ps)"
    by (simp add: consecutive_log_returns_def ps split_def)
  finally show ?thesis
    by (simp add: log_returns_def shift1_def ps np_log_ratio_def)
qed

lemma calculate_historical_volatility_positive:
  assumes "\<forall>p \<in> set ps. 0 < p"
  shows "calculate_historical_volatility (map Some ps) w
       = (if length ps < 3 then None
          else Some (sample_std (consecutive_log_returns ps) * sqrt 365))"
proof (cases "ps = []")
  case True
  then show ?thesis by (simp add: calculate_historical_volatility_def)
next
  case False
  then show ?thesis
    using log_returns_positive [OF assms False]
    by (auto simp: calculate_historical_volatility_def series_std_def dropna_map_Some
        length_consecutive_log_returns Let_def)
qed

lemma filter_date_le_sorted:
  assumes "sorted_wrt (<) (map date xs)" and "i < length xs"
  shows "filter (\<lambda>r. date r \<le> date (xs ! i)) xs = take (Suc i) xs"
proof -
  have lt: "\<And>j k. j < k \<Longrightarrow> k < length xs \<Longrightarrow> date (xs ! j) < date (xs ! k)"
    using assms(1) by (auto simp: sorted_wrt_iff_nth_less dest: spec)
  have a: "filter (\<lambda>r. date r \<le> date (xs ! i)) (take (Suc i) xs) = take (Suc i) xs"
  proof (rule filter_True, clarify)
    fix r assume "r \<in> set (take (Suc i) xs)"
    then obtain j where "j < Suc i" "j < length xs" "r = xs ! j"
      by (auto simp: in_set_conv_nth)
    then show "date r \<le> date (xs ! i)"
      using lt [of j i] assms(2) by (cases "j = i") auto
  qed
  have b: "filter (\<lambda>r. date r \<le> date (xs ! i)) (drop (Suc i) xs) = []"
  proof (rule filter_False, clarify)
    fix r assume "r \<in> set (drop (Suc i) xs)" "date r \<le> date (xs ! i)"
    then obtain k where k: "k < length (drop (Suc i) xs)" "r = drop (Suc i) xs ! k"
      by (auto simp: in_set_conv_nth)
    define j where "j = Suc i + k"
    have "Suc i \<le> j" "j < length xs" "r = xs ! j"
      using k by (simp_all add: j_def)
    then show False
      using lt [of i j] \<open>date r \<le> date (xs ! i)\<close> by auto
  qed
  have "filter (\<lambda>r. date r \<le> date (xs ! i)) (take (Suc i) xs @ drop (Suc i) xs) = take (Suc i) xs"
    unfolding filter_append a b by simp
  then show ?thesis by simp
qed

lemma length_tail: "length (tail n xs) = min n (length xs)"
  by (simp add: tail_def)

lemma map_tail: "map f (tail n xs) = tail n (map f xs)"
  by (simp add: tail_def drop_map)

lemma map_of_window_metrics:
  "map_of (window_metrics df pd d w' @ rest) (HV w)
     = (if w = w'
        then Some (if max 2 (w div 2) \<le> length (historical_data pd d w)
                   then calculate_historical_volatility (map price (historical_data pd d w)) w
                   else None)
        else map_of rest (HV w))"
  by (simp add: window_metrics_def Let_def)

lemma get_row_record_HV:
  assumes "w \<in> set windows"
  shows "get (row_record df pd symbol row) (HV w)
       = Some (if max 2 (w div 2) \<le> length (historical_data pd (date row) w)
               then calculate_historical_volatility (map price (historical_data pd (date row) w)) w
               else None)"
proof -
  have skip: "\<And>rest. map_of
       ((if has_volume df
         then [(Volume, volume row), (QuoteVolume, quote_volume row), (Trades, trades row)]
         else [])
        @ (if has_funding df
           then (FundingRate, funding_rate row)
                # (case funding_rate row of
                     None \<Rightarrow> []
                   | Some f \<Rightarrow> [(AnnualizedFundingRate, Some (f * 3 * 365))])
           else [])
        @ (if has_oi df
           then [(OpenInterest, open_interest row), (OpenInterestValue, open_interest_value row)]
           else [])
        @ rest) (HV w) = map_of rest (HV w)"
    by (simp split: option.splits)
  have "concat (map (window_metrics df pd (date row)) windows)
      = window_metrics df pd (date row) 7 @ window_metrics df pd (date row) 14
        @ window_metrics df pd (date row) 30 @ window_metrics df pd (date row) 60
        @ window_metrics df pd (date row) 90 @ []"
    by (simp add: windows_def)
  then show ?thesis
    using assms unfolding get_def row_record_def
    by (simp only: hv_record.simps skip map_of_window_metrics) (auto simp: windows_def)
qed

lemma calculate_hv_metrics_sorted_priced:
  assumes "sorted_wrt (<) (map date (rows df))" and "map price (rows df) = map Some ps"
    and "2 \<le> length ps"
  shows "calculate_hv_metrics df symbol = map (row_record df (rows df) symbol) (rows df)"
proof -
  have len: "length (rows df) = length ps"
    using assms(2) by (metis length_map)
  have "sorted (map date (rows df))"
    using assms(1) by (rule sorted_wrt_mono_rel [rotated]) simp
  then have s: "sort_key date (rows df) = rows df"
    by (rule sort_key_id_if_sorted)
  have "\<forall>r \<in> set (rows df). price r \<noteq> None"
  proof
    fix r assume "r \<in> set (rows df)"
    then have "price r \<in> set (map price (rows df))" by simp
    then show "price r \<noteq> None" unfolding assms(2) by auto
  qed
  then have f: "filter (\<lambda>r. price r \<noteq> None) (rows df) = rows df"
    by (simp add: filter_id_conv)
  show ?thesis
    unfolding calculate_hv_metrics_def Let_def s f using assms(3) len by simp
qed

lemma collector_hv_value:
  assumes "sorted_wrt (<) (map date (rows df))" and "map price (rows df) = map Some ps"
    and "\<forall>p \<in> set ps. 0 < p" and "2 \<le> length ps" and "i < length ps"
    and "w \<in> set windows"
  shows "get (calculate_hv_metrics df symbol ! i) (HV w)
       = Some (if max 2 (w div 2) \<le> min w (Suc i)
               then Some (sample_std (consecutive_log_returns (tail w (take (Suc i) ps))) * sqrt 365)
               else None)"
proof -
  have len: "length (rows df) = length ps"
    using assms(2) by (metis length_map)
  then have i: "i < length (rows df)" using assms(5) by simp
  have w7: "7 \<le> w" using assms(6) by (auto simp: windows_def)
  have hist: "historical_data (rows df) (date (rows df ! i)) w = tail w (take (Suc i) (rows df))"
    by (simp add: historical_data_def filter_date_le_sorted [OF assms(1) i])
  have prices: "map price (tail w (take (Suc i) (rows df))) = map Some (tail w (take (Suc i) ps))"
    by (simp only: map_tail take_map [symmetric] assms(2))
  have pos: "\<forall>p \<in> set (tail w (take (Suc i) ps)). 0 < p"
    using assms(3) by (auto simp: tail_def dest: in_set_dropD in_set_takeD)
  have l: "length (tail w (take (Suc i) (rows df))) = min w (Suc i)"
    "length (tail w (take (Suc i) ps)) = min w (Suc i)"
    using i assms(5) by (simp_all add: length_tail)
  have "calculate_hv_metrics df symbol ! i = row_record df (rows df) symbol (rows df ! i)"
    using calculate_hv_metrics_sorted_priced [OF assms(1,2,4)] i by simp
  then show ?thesis
    using w7 by (auto simp: get_row_record_HV [OF assms(6)] hist prices l
        calculate_historical_volatility_positive [OF pos])
qed

lemma dated_rows_price: "map price (dated_rows d ps) = map Some ps"
  by (induction ps arbitrary: d) (simp_all add: priced_row_def)

lemma dated_rows_date_lower: "r \<in> set (dated_rows d ps) \<Longrightarrow> d \<le> date r"
  by (induction ps arbitrary: d) (fastforce simp: priced_row_def)+

lemma dated_rows_sorted: "sorted_wrt (<) (map date (dated_rows d ps))"
proof (induction ps arbitrary: d)
  case Nil
  then show ?case by simp
next
  case (Cons p ps)
  have "\<forall>r \<in> set (dated_rows (d + 1) ps). d < date r"
    using dated_rows_date_lower [of _ "d + 1" ps] by fastforce
  then show ?case using Cons by (simp add: priced_row_def)
qed

lemma series_frame_rows:
  "sorted_wrt (<) (map date (rows (series_frame ps)))"
  "map price (rows (series_frame ps)) = map Some ps"
  by (simp_all add: series_frame_def plain_frame_def dated_rows_sorted dated_rows_price)

lemma sample_std_zeros:
  assumes "\<forall>x \<in> set xs. x = 0"
  shows "sample_std xs = 0"
proof -
  have "sum_list xs = 0" using assms by (induction xs) simp_all
  then have m: "mean xs = 0" by (simp add: mean_def)
  have e: "map (\<lambda>x. (x - mean xs) ^ 2) xs = map (\<lambda>x. 0) xs"
    by (rule map_cong) (use assms m in auto)
  have "sum_list (map (\<lambda>x. (x - mean xs) ^ 2) xs) = 0"
    unfolding e by simp
  then show ?thesis unfolding sample_std_def by simp
qed

lemma example_hv_7:
  "get (calculate_hv_metrics (series_frame [2, 1, 1, 1, 1, 1, 1, 1]) ''BTC'' ! 7) (HV 7)
     = Some (Some 0)"
proof -
  have "get (calculate_hv_metrics (series_frame [2, 1, 1, 1, 1, 1, 1, 1]) ''BTC'' ! 7) (HV 7)
      = Some (if max 2 (7 div 2) \<le> min 7 (Suc 7)
              then Some (sample_std (consecutive_log_returns
                     (tail 7 (take (Suc 7) [2, 1, 1, 1, 1, 1, 1, 1::real]))) * sqrt 365)
              else None)"
    by (rule collector_hv_value [OF series_frame_rows]) (simp_all add: windows_def)
  also have "tail 7 (take (Suc 7) [2, 1, 1, 1, 1, 1, 1, 1::real]) = [1, 1, 1, 1, 1, 1, 1]"
    by (simp add: tail_def)
  also have "consecutive_log_returns [1, 1, 1, 1, 1, 1, 1::real] = [0, 0, 0, 0, 0, 0]"
    by (simp add: consecutive_log_returns_def)
  finally show ?thesis by (simp add: sample_std_zeros)
qed

lemma sample_std_one_nonzero:
  assumes "a \<noteq> 0"
  shows "sample_std [a, 0, 0, 0, 0, 0, 0] * sqrt 365 \<noteq> 0"
proof -
  have "(\<Sum>x\<leftarrow>[a, 0, 0, 0, 0, 0, 0]. (x - mean [a, 0, 0, 0, 0, 0, 0]) ^ 2) = 6 / 7 * a ^ 2"
    by (simp add: mean_def power2_eq_square field_simps)
  then have "sample_std [a, 0, 0, 0, 0, 0, 0] = sqrt (a ^ 2 / 7)"
    unfolding sample_std_def by simp
  then show ?thesis using assms by simp
qed

lemma historical_data_length:
  assumes "sorted_wrt (<) (map date xs)" and "i < length xs"
  shows "length (historical_data xs (date (xs ! i)) w) = min w (Suc i)"
  using assms(2) by (simp add: historical_data_def filter_date_le_sorted [OF assms] length_tail)

lemma example_constant_3:
  "get (calculate_hv_metrics (series_frame [100, 100, 100]) ''BTC'' ! 2) (HV 7) = Some (Some 0)"
proof -
  have "get (calculate_hv_metrics (series_frame [100, 100, 100]) ''BTC'' ! 2) (HV 7)
      = Some (if max 2 (7 div 2) \<le> min 7 (Suc 2)
              then Some (sample_std (consecutive_log_returns
                     (tail 7 (take (Suc 2) [100, 100, 100::real]))) * sqrt 365)
              else None)"
    by (rule collector_hv_value [OF series_frame_rows]) (simp_all add: windows_def)
  also have "tail 7 (take (Suc 2) [100, 100, 100::real]) = [100, 100, 100]"
    by (simp add: tail_def)
  also have "consecutive_log_returns [100, 100, 100::real] = [0, 0]"
    by (simp add: consecutive_log_returns_def)
  finally show ?thesis by (simp add: sample_std_zeros)
qed

lemma screener_hv_is_std_of_trailing_returns:
  assumes "map close df = map Some ps" and "\<forall>p \<in> set ps. 0 < p"
    and "2 \<le> w" and "w \<le> i" and "i < length ps"
  shows "hv_at df w i
       = Some (sample_std (drop (i - w) (take i (consecutive_log_returns ps))) * sqrt 365)"
    and "length (drop (i - w) (take i (consecutive_log_returns ps))) = w"
proof -
  have ne: "ps \<noteq> []" using assms(5) by auto
  have lr: "log_returns (map close df) = None # map Some (consecutive_log_returns ps)"
    unfolding assms(1) using assms(2) ne by (rule log_returns_positive)
  obtain j where j: "Suc i - w = Suc j" "j = i - w"
    using assms(4) by (simp add: Suc_diff_le)
  have win: "rolling_window w (log_returns (map close df)) i
      = map Some (drop (i - w) (take i (consecutive_log_returns ps)))"
    unfolding lr rolling_window_def j(1) by (simp add: j(2) take_map drop_map)
  show len: "length (drop (i - w) (take i (consecutive_log_returns ps))) = w"
    using assms(4,5) by (simp add: length_consecutive_log_returns)
  show "hv_at df w i
       = Some (sample_std (drop (i - w) (take i (consecutive_log_returns ps))) * sqrt 365)"
    using assms(3) len by (simp add: hv_at_def rolling_std_at_def win dropna_map_Some Let_def)
qed

lemma close_rows_close: "map close (close_rows t ps) = map Some ps"
  by (induction ps arbitrary: t) simp_all

lemma screener_hv_7_example:
  "hv_at (close_rows 1 [2, 1, 1, 1, 1, 1, 1, 1]) 7 7
     = Some (sample_std [ln (1 / 2), 0, 0, 0, 0, 0, 0] * sqrt 365)"
proof -
  have "hv_at (close_rows 1 [2, 1, 1, 1, 1, 1, 1, 1]) 7 7
      = Some (sample_std (drop (7 - 7) (take 7 (consecutive_log_returns [2, 1, 1, 1, 1, 1, 1, 1])))
          * sqrt 365)"
    by (rule screener_hv_is_std_of_trailing_returns [OF close_rows_close]) simp_all
  also have "consecutive_log_returns [2, 1, 1, 1, 1, 1, 1, 1 :: real]
      = [ln (1 / 2), 0, 0, 0, 0, 0, 0]"
    by (simp add: consecutive_log_returns_def)
  finally show ?thesis by simp
qed

lemma screener_hv_2_example:
  "hv_at (close_rows 1 [100, 101, 99, 102, 98]) 2 1 = None"
  "hv_at (close_rows 1 [100, 101, 99, 102, 98]) 2 2
     = Some (sample_std [ln (101 / 100), ln (99 / 101)] * sqrt 365)"
proof -
  show "hv_at (close_rows 1 [100, 101, 99, 102, 98]) 2 1 = None"
    by (simp add: hv_at_def rolling_std_at_def rolling_window_def log_returns_def shift1_def
        np_log_ratio_def Let_def)
  have "hv_at (close_rows 1 [100, 101, 99, 102, 98]) 2 2
      = Some (sample_std (drop (2 - 2) (take 2 (consecutive_log_returns [100, 101, 99, 102, 98])))
          * sqrt 365)"
    by (rule screener_hv_is_std_of_trailing_returns [OF close_rows_close]) simp_all
  also have "take 2 (consecutive_log_returns [100, 101, 99, 102, 98 :: real])
      = [ln (101 / 100), ln (99 / 101)]"
    by (simp add: consecutive_log_returns_def)
  finally show "hv_at (close_rows 1 [100, 101, 99, 102, 98]) 2 2
     = Some (sample_std [ln (101 / 100), ln (99 / 101)] * sqrt 365)" by simp
qed

text \<open>
  Claim C1. The claim asks that \<open>hv_w\<close> at a date be the standard deviation of the
  trailing \<open>w\<close> log returns ending at that date, times the square root of 365. The
  screener's column \<open>hv_w\<close> is that (the lemmas above, with the prices 100, 101, 99, 102,
  98 and the window 2 among them). The collector cuts the slice of the last \<open>w\<close> prices up
  to the date and takes the log returns inside the slice: the return into the first price
  of the slice is lost, and the deviation is taken over \<open>w - 1\<close> returns. On the eight
  prices 2, 1, 1, 1, 1, 1, 1, 1 the collector reports \<open>hv_7 = 0\<close> at the last date; the
  seven log returns ending at that date, the first of them \<open>ln (1 / 2)\<close>, have a deviation
  that is not zero, and the screener's column has that value at the same position.
\<close>

theorem collector_hv_7_loses_one_return:
  "get (calculate_hv_metrics (series_frame [2, 1, 1, 1, 1, 1, 1, 1]) ''BTC'' ! 7) (HV 7)
     = Some (Some 0)
   \<and> consecutive_log_returns [2, 1, 1, 1, 1, 1, 1, 1] = [ln (1 / 2), 0, 0, 0, 0, 0, 0]
   \<and> sample_std [ln (1 / 2), 0, 0, 0, 0, 0, 0] * sqrt 365 \<noteq> 0
   \<and> hv_at (close_rows 1 [2, 1, 1, 1, 1, 1, 1, 1]) 7 7
       = Some (sample_std [ln (1 / 2), 0, 0, 0, 0, 0, 0] * sqrt 365)"
proof -
  have "ln (1 / 2 :: real) \<noteq> 0" by (simp add: ln_div)
  then have "sample_std [ln (1 / 2), 0, 0, 0, 0, 0, 0] * sqrt 365 \<noteq> 0"
    by (rule sample_std_one_nonzero)
  moreover have "consecutive_log_returns [2, 1, 1, 1, 1, 1, 1, 1] = [ln (1 / 2), 0, 0, 0, 0, 0, 0]"
    by (simp add: consecutive_log_returns_def)
  ultimately show ?thesis
    using example_hv_7 screener_hv_7_example by blast
qed

text \<open>
  Claim C2. The claim asks that \<open>hv_w\<close> be undefined when the trailing slice holds fewer
  than \<open>max(2, ceil(w / 2))\<close> observations, and the comment at the collector's test says
  at least half the window. The test compares the length of the slice with
  \<open>max(2, window // 2)\<close>, the half rounded down. For the window of 7 a slice of three
  observations, fewer than half of seven and one fewer than \<open>max 2 \<lceil>7 / 2\<rceil> = 4\<close>,
  passes the test, and \<open>hv_7\<close> has a value.
\<close>

theorem collector_hv_7_defined_below_half_window:
  "length (historical_data (rows (series_frame [100, 100, 100])) 3 7) = 3
   \<and> 3 < max 2 (nat \<lceil>7 / 2 :: real\<rceil>)
   \<and> 2 * 3 < (7 :: nat)
   \<and> get (calculate_hv_metrics (series_frame [100, 100, 100]) ''BTC'' ! 2) (HV 7)
       = Some (Some 0)"
proof -
  have "length (historical_data (rows (series_frame [100, 100, 100])) 3 7) = 3"
    by (simp add: series_frame_def plain_frame_def priced_row_def historical_data_def tail_def)
  moreover have "3 < max 2 (nat \<lceil>7 / 2 :: real\<rceil>)"
    by simp
  ultimately show ?thesis using example_constant_3 by simp
qed

section \<open>Properties of the screener's volatility engine\<close>

lemma length_log_returns: "length (log_returns xs) = length xs"
  by (simp add: log_returns_def shift1_def)

lemma length_hv_column: "length (hv_column xs w) = length xs"
  by (simp add: hv_column_def rolling_std_def)

lemma hv_column_nth:
  "i < length xs \<Longrightarrow> hv_column xs w ! i = map_option (\<lambda>v. v * sqrt 365) (rolling_std_at w xs i)"
  by (simp add: hv_column_def rolling_std_def)

lemma length_with_metrics: "length (with_metrics df ws) = length df"
  by (simp add: with_metrics_def Let_def)

lemma with_metrics_nth:
  assumes "i < length df"
  shows "with_metrics df ws ! i =
     \<lparr> timestamp = timestamp (df ! i), ohlcv_open = ohlcv_open (df ! i),
       ohlcv_high = ohlcv_high (df ! i), ohlcv_low = ohlcv_low (df ! i),
       close = close (df ! i), ohlcv_volume = ohlcv_volume (df ! i),
       log_ret = log_returns (map close df) ! i,
       hv = map (\<lambda>w. (w, hv_at df w i)) ws,
       rms_2_3 = (if 2 \<in> set ws \<and> 3 \<in> set ws
                  then Some (rms (hv_at df 2 i) (hv_at df 3 i)) else None),
       rms_7_14 = (if 7 \<in> set ws \<and> 14 \<in> set ws
                   then Some (rms (hv_at df 7 i) (hv_at df 14 i)) else None),
       rms_vol = (if 7 \<in> set ws \<and> 14 \<in> set ws then rms (hv_at df 7 i) (hv_at df 14 i)
                  else if 2 \<in> set ws \<and> 3 \<in> set ws then rms (hv_at df 2 i) (hv_at df 3 i)
                  else None) \<rparr>"
  using assms
  by (auto simp: with_metrics_def Let_def hv_at_def hv_column_nth length_log_returns
      length_hv_column)

lemma length_dropna: "length (dropna xs) \<le> length xs"
  by (induction xs rule: dropna.induct) simp_all

lemma log_returns_hd: "xs \<noteq> [] \<Longrightarrow> log_returns xs ! 0 = None"
  by (cases xs) (simp_all add: log_returns_def shift1_def np_log_ratio_def split: option.splits)

lemma rolling_std_at_defined_window:
  assumes "rolling_std_at w xs i \<noteq> None" and "xs \<noteq> []" and "xs ! 0 = None"
  shows "w \<le> i"
proof (rule ccontr)
  assume "\<not> w \<le> i"
  then have full: "Suc i - w = 0" by simp
  obtain ys where xs: "xs = None # ys"
    using assms(2,3) by (cases xs) auto
  have "length (dropna (rolling_window w xs i)) \<le> length (take i ys)"
    using length_dropna [of "take i ys"] by (simp add: rolling_window_def full xs)
  then have "length (dropna (rolling_window w xs i)) \<le> i" by simp
  then show False
    using assms(1) \<open>\<not> w \<le> i\<close> by (auto simp: rolling_std_at_def Let_def split: if_splits)
qed

lemma hv_at_defined_position:
  assumes "hv_at df w i \<noteq> None" and "i < length df"
  shows "w \<le> i"
proof -
  have ne: "log_returns (map close df) \<noteq> []"
    using assms(2) length_log_returns [of "map close df"] by auto
  have "map close df \<noteq> []" using assms(2) by auto
  then have "log_returns (map close df) ! 0 = None" by (rule log_returns_hd)
  moreover have "rolling_std_at w (log_returns (map close df)) i \<noteq> None"
    using assms(1) by (simp add: hv_at_def)
  ultimately show ?thesis using ne by (rule rolling_std_at_defined_window [rotated 2])
qed

lemma complete_row_position:
  assumes "complete_row (with_metrics df ws ! i)" and "i < length df" and "w \<in> set ws"
  shows "w \<le> i"
proof -
  have "list_all (\<lambda>e. snd e \<noteq> None) (map (\<lambda>w. (w, hv_at df w i)) ws)"
    using assms(1) by (simp add: with_metrics_nth [OF assms(2)] complete_row_def)
  then have "hv_at df w i \<noteq> None"
    using assms(3) by (auto simp: list_all_iff)
  then show ?thesis using assms(2) by (rule hv_at_defined_position)
qed

lemma screener_calculate_hv_metrics_filter:
  assumes "ws \<noteq> []"
  shows "screener_calculate_hv_metrics df ws = Inr (filter complete_row (with_metrics df ws))"
proof (cases "df = [] \<or> Max (set ws) + 1 \<le> length df")
  case True
  then show ?thesis
    using assms by (auto simp: screener_calculate_hv_metrics_def with_metrics_def Let_def)
next
  case False
  have "filter complete_row (with_metrics df ws) = []"
  proof (rule filter_False, clarify)
    fix r assume "r \<in> set (with_metrics df ws)" and c: "complete_row r"
    then obtain i where i: "i < length df" "r = with_metrics df ws ! i"
      by (auto simp: in_set_conv_nth length_with_metrics)
    have "Max (set ws) \<in> set ws" using assms by (simp add: Max_in)
    then have "Max (set ws) \<le> i"
      using c i complete_row_position by blast
    then show False using False i by simp
  qed
  then show ?thesis
    using False assms by (simp add: screener_calculate_hv_metrics_def)
qed

lemma example_screener_constant:
  "screener_calculate_hv_metrics (close_rows 1 [100, 100, 100, 100]) [2, 3]
     = Inr [\<lparr> timestamp = 4, ohlcv_open = Some 100, ohlcv_high = Some 100, ohlcv_low = Some 100,
              close = Some 100, ohlcv_volume = Some 0, log_ret = Some 0,
              hv = [(2, Some 0), (3, Some 0)], rms_2_3 = Some (Some 0), rms_7_14 = None,
              rms_vol = Some 0 \<rparr>]"
  by (simp add: screener_calculate_hv_metrics_def with_metrics_def Let_def log_returns_def
      shift1_def np_log_ratio_def hv_column_def rolling_std_def rolling_std_at_def
      rolling_window_def rms_def complete_row_def sample_std_zeros)

text \<open>
  Claim C10. With at least one window configured, the screener's function returns the
  empty frame whenever the input has fewer than \<open>max(vol_windows) + 1\<close> rows; and every row
  of its result is complete (no cell of it, input column or computed column, is NaN) and
  is the row computed at an input position not smaller than the largest window, so the
  rows of the earliest dates are left out.
\<close>

theorem screener_result_has_no_missing_value:
  assumes "vol_windows \<noteq> []"
  shows "(length df < Max (set vol_windows) + 1
            \<longrightarrow> screener_calculate_hv_metrics df vol_windows = Inr [])
       \<and> (\<exists>result. screener_calculate_hv_metrics df vol_windows = Inr result
             \<and> (\<forall>r \<in> set result.
                   complete_row r
                   \<and> (\<exists>i. Max (set vol_windows) \<le> i \<and> i < length df
                          \<and> r = with_metrics df vol_windows ! i
                          \<and> timestamp r = timestamp (df ! i))))"
proof -
  have short: "screener_calculate_hv_metrics df vol_windows = Inr []"
    if "length df < Max (set vol_windows) + 1"
    using that assms by (simp add: screener_calculate_hv_metrics_def)
  have rows: "complete_row r
      \<and> (\<exists>i. Max (set vol_windows) \<le> i \<and> i < length df
             \<and> r = with_metrics df vol_windows ! i \<and> timestamp r = timestamp (df ! i))"
    if "r \<in> set (filter complete_row (with_metrics df vol_windows))" for r
  proof -
    from that have c: "complete_row r" and "r \<in> set (with_metrics df vol_windows)" by auto
    then obtain i where i: "i < length df" "r = with_metrics df vol_windows ! i"
      by (auto simp: in_set_conv_nth length_with_metrics)
    have "Max (set vol_windows) \<in> set vol_windows" using assms by (simp add: Max_in)
    then have "Max (set vol_windows) \<le> i"
      using c i complete_row_position by blast
    moreover have "timestamp r = timestamp (df ! i)"
      using i by (simp add: with_metrics_nth)
    ultimately show ?thesis using c i by blast
  qed
  show ?thesis
    using short rows screener_calculate_hv_metrics_filter [OF assms, of df] by blast
qed

theorem screener_result_has_no_missing_value_witness:
  "screener_calculate_hv_metrics (close_rows 1 [100, 100, 100]) [2, 3] = Inr []
   \<and> (\<exists>r. screener_calculate_hv_metrics (close_rows 1 [100, 100, 100, 100]) [2, 3] = Inr [r]
          \<and> complete_row r \<and> timestamp r = 4)"
proof -
  have w: "[2, 3] \<noteq> ([] :: nat list)" by simp
  show ?thesis
    using screener_result_has_no_missing_value [OF w, of "close_rows 1 [100, 100, 100]"]
      screener_result_has_no_missing_value [OF w, of "close_rows 1 [100, 100, 100, 100]"]
      example_screener_constant
    by auto
qed

section \<open>Constant series\<close>

lemma consecutive_log_returns_constant:
  assumes "\<forall>p \<in> set ps. p = c" and "c \<noteq> 0"
  shows "\<forall>x \<in> set (consecutive_log_returns ps). x = 0"
proof
  fix x assume "x \<in> set (consecutive_log_returns ps)"
  then obtain q p where "(q, p) \<in> set (zip (tl ps) ps)" and x: "x = ln (q / p)"
    by (auto simp: consecutive_log_returns_def)
  then have "q \<in> set (tl ps)" and "p \<in> set ps"
    by (auto dest: set_zip_leftD set_zip_rightD)
  moreover have "set (tl ps) \<subseteq> set ps" by (cases ps) auto
  ultimately have "q = c" and "p = c"
    using assms(1) by blast+
  then show "x = 0" using x assms(2) by simp
qed

lemma calculate_historical_volatility_constant:
  assumes "\<forall>x \<in> set xs. x = Some c" and "0 < c"
    and "calculate_historical_volatility xs w = Some v"
  shows "v = 0"
proof -
  define ps where "ps = map (\<lambda>x. c) xs"
  have xs: "xs = map Some ps"
    unfolding ps_def using assms(1) by (induction xs) auto
  have pos: "\<forall>p \<in> set ps. 0 < p" using assms(2) by (auto simp: ps_def)
  have "\<forall>p \<in> set ps. p = c" by (auto simp: ps_def)
  then have "sample_std (consecutive_log_returns ps) = 0"
    using assms(2) by (intro sample_std_zeros consecutive_log_returns_constant) auto
  then show ?thesis
    using assms(3) unfolding xs calculate_historical_volatility_positive [OF pos]
    by (simp split: if_splits)
qed

lemma get_row_record_HV_cases:
  assumes "get (row_record df pd symbol row) (HV w) = Some (Some v)"
  shows "calculate_historical_volatility (map price (historical_data pd (date row) w)) w = Some v"
proof (cases "w \<in> set windows")
  case True
  then show ?thesis
    using assms by (simp add: get_row_record_HV split: if_splits)
next
  case False
  have skip: "\<And>rest. map_of
       ((if has_volume df
         then [(Volume, volume row), (QuoteVolume, quote_volume row), (Trades, trades row)]
         else [])
        @ (if has_funding df
           then (FundingRate, funding_rate row)
                # (case funding_rate row of
                     None \<Rightarrow> []
                   | Some f \<Rightarrow> [(AnnualizedFundingRate, Some (f * 3 * 365))])
           else [])
        @ (if has_oi df
           then [(OpenInterest, open_interest row), (OpenInterestValue, open_interest_value row)]
           else [])
        @ rest) (HV w) = map_of rest (HV w)"
    by (simp split: option.splits)
  have "concat (map (window_metrics df pd (date row)) windows)
      = window_metrics df pd (date row) 7 @ window_metrics df pd (date row) 14
        @ window_metrics df pd (date row) 30 @ window_metrics df pd (date row) 60
        @ window_metrics df pd (date row) 90 @ []"
    by (simp add: windows_def)
  then have "get (row_record df pd symbol row) (HV w) = None"
    using False unfolding get_def row_record_def
    by (simp only: hv_record.simps skip map_of_window_metrics) (auto simp: windows_def)
  then show ?thesis using assms by simp
qed

lemma set_historical_data: "set (historical_data pd d w) \<subseteq> set pd"
  by (auto simp: historical_data_def tail_def dest: in_set_dropD)

lemma collector_constant_prices:
  assumes "\<forall>r \<in> set (rows df). price r = Some c" and "0 < c"
    and "entry \<in> set (calculate_hv_metrics df symbol)"
    and "get entry (HV w) = Some (Some v)"
  shows "v = 0"
proof -
  define pd where "pd = filter (\<lambda>r. price r \<noteq> None) (sort_key date (rows df))"
  have sub: "set pd \<subseteq> set (rows df)" by (auto simp: pd_def)
  have "calculate_hv_metrics df symbol
      = (if length (rows df) < 2 then [] else map (row_record df pd symbol) pd)"
    unfolding calculate_hv_metrics_def Let_def pd_def ..
  then obtain row where "entry = row_record df pd symbol row"
    using assms(3) by (auto split: if_splits)
  then have hv: "calculate_historical_volatility
      (map price (historical_data pd (date row) w)) w = Some v"
    using assms(4) get_row_record_HV_cases by blast
  have "\<forall>x \<in> set (map price (historical_data pd (date row) w)). x = Some c"
    using assms(1) sub set_historical_data [of pd "date row" w] by auto
  then show ?thesis using assms(2) hv by (rule calculate_historical_volatility_constant)
qed

lemma set_dropna: "x \<in> set (dropna xs) \<longleftrightarrow> Some x \<in> set xs"
  by (induction xs rule: dropna.induct) auto

lemma set_rolling_window: "set (rolling_window w xs i) \<subseteq> set xs"
  by (auto simp: rolling_window_def dest: in_set_dropD in_set_takeD)

lemma screener_constant_prices:
  assumes "\<forall>r \<in> set df. close r = Some c" and "0 < c" and "hv_at df w i = Some v"
  shows "v = 0"
proof -
  define ps where "ps = map (\<lambda>r. c) df"
  have cl: "map close df = map Some ps"
    unfolding ps_def using assms(1) by (induction df) auto
  have pos: "\<forall>p \<in> set ps. 0 < p" using assms(2) by (auto simp: ps_def)
  have "\<forall>p \<in> set ps. p = c" by (auto simp: ps_def)
  then have z: "\<forall>x \<in> set (consecutive_log_returns ps). x = 0"
    using assms(2) by (intro consecutive_log_returns_constant) auto
  have lr: "\<forall>x. Some x \<in> set (log_returns (map close df)) \<longrightarrow> x = 0"
  proof (cases "ps = []")
    case True
    then show ?thesis by (simp add: cl log_returns_def shift1_def)
  next
    case False
    show ?thesis
      unfolding cl log_returns_positive [OF pos False] using z by auto
  qed
  have "\<forall>x \<in> set (dropna (rolling_window w (log_returns (map close df)) i)). x = 0"
    using lr set_rolling_window [of w "log_returns (map close df)" i]
    by (auto simp: set_dropna)
  then have "sample_std (dropna (rolling_window w (log_returns (map close df)) i)) = 0"
    by (rule sample_std_zeros)
  then show ?thesis
    using assms(3) by (auto simp: hv_at_def rolling_std_at_def Let_def split: if_splits)
qed

text \<open>
  Claim C7. When every price of a series is the same positive number, every value of
  \<open>hv_w\<close> that is defined is exactly zero: in every record of the collector, for every
  window; and in the screener, in every row of the frame before the incomplete rows are
  dropped and in every row of the result.
\<close>

theorem constant_series_hv_zero:
  assumes "0 < c"
  shows "((\<forall>r \<in> set (rows df). price r = Some c)
            \<longrightarrow> (\<forall>entry \<in> set (calculate_hv_metrics df symbol).
                   \<forall>w v. get entry (HV w) = Some (Some v) \<longrightarrow> v = 0))
       \<and> ((\<forall>r \<in> set sdf. close r = Some c)
            \<longrightarrow> (\<forall>r \<in> set (with_metrics sdf vol_windows).
                   \<forall>w v. (w, Some v) \<in> set (hv r) \<longrightarrow> v = 0)
              \<and> (\<forall>result. screener_calculate_hv_metrics sdf vol_windows = Inr result
                   \<longrightarrow> (\<forall>r \<in> set result. \<forall>w v. (w, Some v) \<in> set (hv r) \<longrightarrow> v = 0)))"
proof -
  have a: "v = 0"
    if "\<forall>r \<in> set (rows df). price r = Some c"
      and "entry \<in> set (calculate_hv_metrics df symbol)"
      and "get entry (HV w) = Some (Some v)" for entry w v
    using that assms collector_constant_prices by blast
  have b: "v = 0"
    if p: "\<forall>r \<in> set sdf. close r = Some c" "r \<in> set (with_metrics sdf vol_windows)"
      "(w, Some v) \<in> set (hv r)" for r w v
  proof -
    obtain i where i: "i < length sdf" "r = with_metrics sdf vol_windows ! i"
      using p(2) by (auto simp: in_set_conv_nth length_with_metrics)
    then have "hv_at sdf w i = Some v"
      using p(3) by (auto simp: with_metrics_nth)
    then show ?thesis using p(1) assms screener_constant_prices by blast
  qed
  have c: "v = 0"
    if "\<forall>r \<in> set sdf. close r = Some c"
      and "screener_calculate_hv_metrics sdf vol_windows = Inr result"
      and "r \<in> set result" and "(w, Some v) \<in> set (hv r)" for result r w v
  proof -
    have "r \<in> set (with_metrics sdf vol_windows)"
      using that(2,3) by (auto simp: screener_calculate_hv_metrics_def split: if_splits)
    then show ?thesis using b that(1,4) by blast
  qed
  show ?thesis using a b c by blast
qed

theorem constant_series_hv_zero_witness:
  "(0::real) < 100
   \<and> get (calculate_hv_metrics (series_frame [100, 100, 100]) ''BTC'' ! 2) (HV 7) = Some (Some 0)
   \<and> (\<exists>r. screener_calculate_hv_metrics (close_rows 1 [100, 100, 100, 100]) [2, 3] = Inr [r]
          \<and> hv r = [(2, Some 0), (3, Some 0)])"
proof -
  have pos: "(0::real) < 100" by simp
  have rows3: "\<forall>r \<in> set (rows (series_frame [100, 100, 100])). price r = Some 100"
    by (simp add: series_frame_def plain_frame_def priced_row_def)
  have "calculate_hv_metrics (series_frame [100, 100, 100]) ''BTC''
      = map (row_record (series_frame [100, 100, 100]) (rows (series_frame [100, 100, 100])) ''BTC'')
          (rows (series_frame [100, 100, 100]))"
    by (rule calculate_hv_metrics_sorted_priced [OF series_frame_rows]) simp
  then have len: "length (calculate_hv_metrics (series_frame [100, 100, 100]) ''BTC'') = 3"
    by (simp add: series_frame_def plain_frame_def)
  obtain v where v: "get (calculate_hv_metrics (series_frame [100, 100, 100]) ''BTC'' ! 2) (HV 7)
      = Some (Some v)"
    using example_constant_3 by blast
  have "calculate_hv_metrics (series_frame [100, 100, 100]) ''BTC'' ! 2
      \<in> set (calculate_hv_metrics (series_frame [100, 100, 100]) ''BTC'')"
    using len by (intro nth_mem) simp
  then have "v = 0"
    using constant_series_hv_zero [OF pos, of "series_frame [100, 100, 100]" "''BTC''"] rows3 v
    by blast
  then show ?thesis using v example_screener_constant by simp
qed

section \<open>Scale invariance\<close>

lemma np_log_ratio_scale:
  "c \<noteq> 0 \<Longrightarrow> np_log_ratio (map_option (\<lambda>p. c * p) a) (map_option (\<lambda>p. c * p) b)
     = np_log_ratio a b"
  by (cases a; cases b) (simp_all add: np_log_ratio_def)

lemma shift1_map_option: "shift1 (map (map_option f) xs) = map (map_option f) (shift1 xs)"
  by (simp add: shift1_def map_butlast)

lemma log_returns_scale:
  assumes "c \<noteq> 0"
  shows "log_returns (map (map_option (\<lambda>p. c * p)) xs) = log_returns xs"
  unfolding log_returns_def shift1_map_option zip_map_map
  by (simp add: np_log_ratio_scale [OF assms] split_def)

lemma close_scale_prices:
  "map close (scale_prices c df) = map (map_option (\<lambda>p. c * p)) (map close df)"
  by (simp add: scale_prices_def)

lemma log_returns_close_scale:
  "c \<noteq> 0 \<Longrightarrow> log_returns (map close (scale_prices c df)) = log_returns (map close df)"
  unfolding close_scale_prices by (rule log_returns_scale)

lemma hv_at_scale:
  assumes "c \<noteq> 0"
  shows "hv_at (scale_prices c df) w i = hv_at df w i"
  unfolding hv_at_def log_returns_close_scale [OF assms] ..

lemma map_filter_related:
  "list_all2 (\<lambda>x y. P x = P y \<and> m x = m y) xs ys \<Longrightarrow> map m (filter P xs) = map m (filter P ys)"
  by (induction rule: list_all2_induct) auto

lemma with_metrics_scale:
  assumes "c \<noteq> 0"
  shows "list_all2 (\<lambda>x y. complete_row x = complete_row y \<and> metric_columns x = metric_columns y)
           (with_metrics (scale_prices c df) ws) (with_metrics df ws)"
proof -
  have len: "length (scale_prices c df) = length df" by (simp add: scale_prices_def)
  have "complete_row (with_metrics (scale_prices c df) ws ! i) = complete_row (with_metrics df ws ! i)
      \<and> metric_columns (with_metrics (scale_prices c df) ws ! i)
          = metric_columns (with_metrics df ws ! i)" if "i < length df" for i
  proof -
    have i: "i < length (scale_prices c df)" using that len by simp
    have lr: "log_returns (map close (scale_prices c df)) = log_returns (map close df)"
      using assms by (rule log_returns_close_scale)
    have row: "timestamp (scale_prices c df ! i) = timestamp (df ! i)"
      "ohlcv_open (scale_prices c df ! i) = map_option (\<lambda>p. c * p) (ohlcv_open (df ! i))"
      "ohlcv_high (scale_prices c df ! i) = map_option (\<lambda>p. c * p) (ohlcv_high (df ! i))"
      "ohlcv_low (scale_prices c df ! i) = map_option (\<lambda>p. c * p) (ohlcv_low (df ! i))"
      "close (scale_prices c df ! i) = map_option (\<lambda>p. c * p) (close (df ! i))"
      "ohlcv_volume (scale_prices c df ! i) = ohlcv_volume (df ! i)"
      using that by (simp_all add: scale_prices_def)
    show ?thesis
      unfolding with_metrics_nth [OF i] with_metrics_nth [OF that] hv_at_scale [OF assms] lr row
      by (simp add: complete_row_def metric_columns_def)
  qed
  then show ?thesis
    by (simp add: list_all2_conv_all_nth length_with_metrics len)
qed

lemma parkinson_scale:
  assumes "c \<noteq> 0"
  shows "calculate_parkinson_volatility frame (scale_high_low c data)
       = calculate_parkinson_volatility frame data"
proof -
  have "map (\<lambda>r. map_option (\<lambda>l. l ^ 2) (np_log_ratio (high r) (low r))) (scale_high_low c data)
      = map (\<lambda>r. map_option (\<lambda>l. l ^ 2) (np_log_ratio (high r) (low r))) data"
    by (simp add: scale_high_low_def np_log_ratio_scale [OF assms])
  then show ?thesis by (simp add: calculate_parkinson_volatility_def Let_def)
qed

text \<open>
  In exact arithmetic, multiplying every price of a series by a positive constant changes
  no metric of the screener (the log return, every \<open>hv_w\<close> and every RMS blend, in the
  frame before the incomplete rows are dropped and in the result), and the Parkinson
  estimator of the collector is the same when the high and the low of every row of the
  slice are multiplied by the constant. Claim C6 is about the values the program computes
  in doubles, where \<open>(c * a) / (c * b)\<close> need not round to the double of \<open>a / b\<close>; rounding
  is outside this development, and the lemma says nothing about it.
\<close>

lemma scale_invariance_exact:
  assumes "0 < c"
  shows "map metric_columns (with_metrics (scale_prices c df) vol_windows)
           = map metric_columns (with_metrics df vol_windows)
       \<and> map_sum id (map metric_columns)
             (screener_calculate_hv_metrics (scale_prices c df) vol_windows)
           = map_sum id (map metric_columns) (screener_calculate_hv_metrics df vol_windows)
       \<and> calculate_parkinson_volatility frame (scale_high_low c data)
           = calculate_parkinson_volatility frame data"
proof -
  have c: "c \<noteq> 0" using assms by simp
  have len: "length (scale_prices c df) = length df" by (simp add: scale_prices_def)
  have rel: "list_all2 (\<lambda>x y. complete_row x = complete_row y \<and> metric_columns x = metric_columns y)
      (with_metrics (scale_prices c df) vol_windows) (with_metrics df vol_windows)"
    using c by (rule with_metrics_scale)
  then have "list_all2 (\<lambda>x y. metric_columns x = metric_columns y)
      (with_metrics (scale_prices c df) vol_windows) (with_metrics df vol_windows)"
    by (rule list_all2_mono) simp
  then have a: "map metric_columns (with_metrics (scale_prices c df) vol_windows)
      = map metric_columns (with_metrics df vol_windows)"
    by (induction rule: list_all2_induct) auto
  have f: "map metric_columns (filter complete_row (with_metrics (scale_prices c df) vol_windows))
      = map metric_columns (filter complete_row (with_metrics df vol_windows))"
    using rel by (rule map_filter_related)
  have e: "scale_prices c df = [] \<longleftrightarrow> df = []" by (simp add: scale_prices_def)
  have b: "map_sum id (map metric_columns)
        (screener_calculate_hv_metrics (scale_prices c df) vol_windows)
      = map_sum id (map metric_columns) (screener_calculate_hv_metrics df vol_windows)"
    by (simp add: screener_calculate_hv_metrics_def e len f)
  show ?thesis using a b parkinson_scale [OF c] by blast
qed

section \<open>No look-ahead\<close>

lemma historical_data_restrict:
  assumes "d \<le> t"
  shows "historical_data (filter (\<lambda>r. date r \<le> t) pd) d w = historical_data pd d w"
proof -
  have "filter (\<lambda>r. date r \<le> t \<and> date r \<le> d) pd = filter (\<lambda>r. date r \<le> d) pd"
    using assms by (intro filter_cong) auto
  then show ?thesis by (simp add: historical_data_def)
qed

lemma window_metrics_restrict:
  "d \<le> t \<Longrightarrow> window_metrics df (filter (\<lambda>r. date r \<le> t) pd) d = window_metrics df pd d"
  by (rule ext) (simp add: window_metrics_def historical_data_restrict)

lemma window_metrics_rows_update:
  "window_metrics (df \<lparr> rows := rs \<rparr>) pd d = window_metrics df pd d"
  by (rule ext) (simp add: window_metrics_def calculate_parkinson_volatility_def Let_def)

lemma row_record_restrict:
  "date row \<le> t
     \<Longrightarrow> row_record df (filter (\<lambda>r. date r \<le> t) pd) symbol row = row_record df pd symbol row"
  by (simp add: row_record_def window_metrics_restrict)

lemma row_record_rows_update:
  "row_record (df \<lparr> rows := rs \<rparr>) pd symbol row = row_record df pd symbol row"
  by (simp add: row_record_def window_metrics_rows_update)

lemma calculate_hv_metrics_up_to:
  assumes "2 \<le> length rs"
  shows "filter (\<lambda>e. rec_date e \<le> t) (calculate_hv_metrics (df \<lparr> rows := rs \<rparr>) symbol)
       = map (row_record df
                (filter (\<lambda>r. price r \<noteq> None) (sort_key date (filter (\<lambda>r. date r \<le> t) rs)))
                symbol)
           (filter (\<lambda>r. price r \<noteq> None) (sort_key date (filter (\<lambda>r. date r \<le> t) rs)))"
proof -
  define pd where "pd = filter (\<lambda>r. price r \<noteq> None) (sort_key date rs)"
  have q: "filter (\<lambda>r. price r \<noteq> None) (sort_key date (filter (\<lambda>r. date r \<le> t) rs))
      = filter (\<lambda>r. date r \<le> t) pd"
    unfolding pd_def filter_sort [symmetric] filter_filter by (intro filter_cong) auto
  have "calculate_hv_metrics (df \<lparr> rows := rs \<rparr>) symbol = map (row_record df pd symbol) pd"
    using assms unfolding calculate_hv_metrics_def Let_def pd_def
    by (simp add: row_record_rows_update)
  then have "filter (\<lambda>e. rec_date e \<le> t) (calculate_hv_metrics (df \<lparr> rows := rs \<rparr>) symbol)
      = map (row_record df pd symbol) (filter (\<lambda>r. date r \<le> t) pd)"
    by (simp add: filter_map comp_def row_record_def)
  also have "\<dots> = map (row_record df (filter (\<lambda>r. date r \<le> t) pd) symbol)
      (filter (\<lambda>r. date r \<le> t) pd)"
    by (intro map_cong) (simp_all add: row_record_restrict)
  finally show ?thesis unfolding q .
qed

lemma filter_le_sorted_take:
  fixes k :: "'a \<Rightarrow> int"
  assumes "sorted_wrt (<) (map k zs)"
  shows "filter (\<lambda>z. k z \<le> t) zs = take (length (filter (\<lambda>z. k z \<le> t) zs)) zs"
  using assms
proof (induction zs)
  case Nil
  then show ?case by simp
next
  case (Cons z zs)
  show ?case
  proof (cases "k z \<le> t")
    case True
    then show ?thesis using Cons by simp
  next
    case False
    then have "\<forall>y \<in> set zs. \<not> k y \<le> t" using Cons.prems by fastforce
    then have "filter (\<lambda>z. k z \<le> t) zs = []" by (simp add: filter_empty_conv)
    then show ?thesis using False by simp
  qed
qed

lemma shift1_take: "shift1 (take n xs) = take n (shift1 xs)"
proof (cases n)
  case 0
  then show ?thesis by (simp add: shift1_def)
next
  case (Suc m)
  show ?thesis
  proof (cases "xs = []")
    case True
    then show ?thesis by (simp add: shift1_def)
  next
    case False
    have "butlast (take (Suc m) xs) = take m (butlast xs)"
    proof (cases "Suc m \<le> length xs")
      case True
      then show ?thesis by (simp add: butlast_take butlast_conv_take min_def)
    next
      case False
      then show ?thesis by simp
    qed
    then show ?thesis using False Suc by (simp add: shift1_def)
  qed
qed

lemma log_returns_take: "log_returns (take n xs) = take n (log_returns xs)"
  by (simp add: log_returns_def shift1_take take_map take_zip)

lemma hv_at_take:
  assumes "i < n"
  shows "hv_at (take n df) w i = hv_at df w i"
proof -
  have "min (Suc i) n = Suc i" using assms by simp
  then have "rolling_window w (take n (log_returns (map close df))) i
      = rolling_window w (log_returns (map close df)) i"
    by (simp add: rolling_window_def)
  then show ?thesis
    by (simp add: hv_at_def rolling_std_at_def take_map [symmetric] log_returns_take)
qed

lemma with_metrics_take: "with_metrics (take n df) ws = take n (with_metrics df ws)"
proof (rule nth_equalityI)
  show "length (with_metrics (take n df) ws) = length (take n (with_metrics df ws))"
    by (simp add: length_with_metrics)
next
  fix i assume "i < length (with_metrics (take n df) ws)"
  then have i: "i < n" "i < length df" "i < length (take n df)"
    by (simp_all add: length_with_metrics)
  have lr: "log_returns (map close (take n df)) ! i = log_returns (map close df) ! i"
    using i by (simp add: take_map [symmetric] log_returns_take)
  show "with_metrics (take n df) ws ! i = take n (with_metrics df ws) ! i"
    using i by (simp add: with_metrics_nth hv_at_take lr)
qed

lemma timestamp_with_metrics: "map timestamp (with_metrics df ws) = map timestamp df"
  by (rule nth_equalityI) (simp_all add: length_with_metrics with_metrics_nth)

lemma with_metrics_up_to:
  assumes "sorted_wrt (<) (map timestamp df)"
  shows "filter (\<lambda>r. timestamp r \<le> t) (with_metrics df ws)
       = with_metrics (filter (\<lambda>r. timestamp r \<le> t) df) ws"
proof -
  define n where "n = length (filter (\<lambda>r. timestamp r \<le> t) df)"
  have a: "filter (\<lambda>r. timestamp r \<le> t) df = take n df"
    unfolding n_def using assms by (rule filter_le_sorted_take)
  have "length (filter (\<lambda>r. timestamp r \<le> t) (with_metrics df ws))
      = length (filter (\<lambda>v. v \<le> t) (map timestamp (with_metrics df ws)))"
    by (simp add: filter_map comp_def)
  also have "\<dots> = n"
    by (simp add: timestamp_with_metrics n_def filter_map comp_def)
  finally have n': "length (filter (\<lambda>r. timestamp r \<le> t) (with_metrics df ws)) = n" .
  have "sorted_wrt (<) (map timestamp (with_metrics df ws))"
    using assms by (simp add: timestamp_with_metrics)
  then have "filter (\<lambda>r. timestamp r \<le> t) (with_metrics df ws) = take n (with_metrics df ws)"
    using filter_le_sorted_take [of timestamp "with_metrics df ws" t] n' by simp
  then show ?thesis by (simp add: a with_metrics_take)
qed

lemma screener_up_to:
  assumes "sorted_wrt (<) (map timestamp df)" and "ws \<noteq> []"
  shows "map_sum id (filter (\<lambda>r. timestamp r \<le> t)) (screener_calculate_hv_metrics df ws)
       = Inr (filter complete_row (with_metrics (filter (\<lambda>r. timestamp r \<le> t) df) ws))"
proof -
  have "filter (\<lambda>r. timestamp r \<le> t) (filter complete_row (with_metrics df ws))
      = filter complete_row (filter (\<lambda>r. timestamp r \<le> t) (with_metrics df ws))"
    by (simp add: conj_commute)
  then show ?thesis
    by (simp add: screener_calculate_hv_metrics_filter [OF assms(2)]
        with_metrics_up_to [OF assms(1)])
qed

text \<open>
  Claim C9, as amended. Two frames of the collector with the same columns whose rows
  agree up to and including a date \<open>t\<close>, each of at least two rows, give the same records
  at the dates up to \<open>t\<close>: every \<open>hv_w\<close>, every Parkinson value, the annualized funding
  rate and every other key. Two frames of the screener with strictly ascending timestamps
  whose rows agree up to and including \<open>t\<close> give, for a non-empty list of windows, the
  same rows of the result at the timestamps up to \<open>t\<close>: every \<open>hv_w\<close> and every RMS blend.
  Rows after \<open>t\<close> change nothing at or before \<open>t\<close>.
\<close>

theorem no_look_ahead:
  "(filter (\<lambda>r. date r \<le> t) rs1 = filter (\<lambda>r. date r \<le> t) rs2
      \<and> 2 \<le> length rs1 \<and> 2 \<le> length rs2
    \<longrightarrow> filter (\<lambda>e. rec_date e \<le> t) (calculate_hv_metrics (df \<lparr> rows := rs1 \<rparr>) symbol)
        = filter (\<lambda>e. rec_date e \<le> t) (calculate_hv_metrics (df \<lparr> rows := rs2 \<rparr>) symbol))
   \<and> (sorted_wrt (<) (map timestamp sdf1) \<and> sorted_wrt (<) (map timestamp sdf2)
      \<and> filter (\<lambda>r. timestamp r \<le> t) sdf1 = filter (\<lambda>r. timestamp r \<le> t) sdf2
      \<and> vol_windows \<noteq> []
    \<longrightarrow> map_sum id (filter (\<lambda>r. timestamp r \<le> t))
          (screener_calculate_hv_metrics sdf1 vol_windows)
        = map_sum id (filter (\<lambda>r. timestamp r \<le> t))
            (screener_calculate_hv_metrics sdf2 vol_windows))"
  by (simp add: calculate_hv_metrics_up_to screener_up_to)

theorem no_look_ahead_witness:
  "filter (\<lambda>e. rec_date e \<le> 2)
       (calculate_hv_metrics (plain_frame [] \<lparr> rows := dated_rows 1 [100, 101, 99] \<rparr>) ''BTC'')
     = filter (\<lambda>e. rec_date e \<le> 2)
         (calculate_hv_metrics (plain_frame [] \<lparr> rows := dated_rows 1 [100, 101, 50] \<rparr>) ''BTC'')
   \<and> length (filter (\<lambda>e. rec_date e \<le> 2)
         (calculate_hv_metrics (plain_frame [] \<lparr> rows := dated_rows 1 [100, 101, 99] \<rparr>) ''BTC''))
       = 2
   \<and> map_sum id (filter (\<lambda>r. timestamp r \<le> 4))
         (screener_calculate_hv_metrics (close_rows 1 [100, 100, 100, 100, 98]) [2, 3])
       = map_sum id (filter (\<lambda>r. timestamp r \<le> 4))
           (screener_calculate_hv_metrics (close_rows 1 [100, 100, 100, 100, 50]) [2, 3])"
proof -
  have len: "length (filter (\<lambda>e. rec_date e \<le> 2)
      (calculate_hv_metrics (plain_frame [] \<lparr> rows := dated_rows 1 [100, 101, 99] \<rparr>) ''BTC'')) = 2"
    by (subst calculate_hv_metrics_up_to) (simp_all add: priced_row_def)
  have h1: "filter (\<lambda>r. date r \<le> 2) (dated_rows 1 [100, 101, 99])
        = filter (\<lambda>r. date r \<le> 2) (dated_rows 1 [100, 101, 50])
      \<and> 2 \<le> length (dated_rows 1 [100, 101, 99]) \<and> 2 \<le> length (dated_rows 1 [100, 101, 50])"
    by (simp add: priced_row_def)
  have h2: "sorted_wrt (<) (map timestamp (close_rows 1 [100, 100, 100, 100, 98]))
      \<and> sorted_wrt (<) (map timestamp (close_rows 1 [100, 100, 100, 100, 50]))
      \<and> filter (\<lambda>r. timestamp r \<le> 4) (close_rows 1 [100, 100, 100, 100, 98])
        = filter (\<lambda>r. timestamp r \<le> 4) (close_rows 1 [100, 100, 100, 100, 50])
      \<and> [2, 3] \<noteq> ([] :: nat list)"
    by simp
  have c: "filter (\<lambda>e. rec_date e \<le> 2)
       (calculate_hv_metrics (plain_frame [] \<lparr> rows := dated_rows 1 [100, 101, 99] \<rparr>) ''BTC'')
     = filter (\<lambda>e. rec_date e \<le> 2)
         (calculate_hv_metrics (plain_frame [] \<lparr> rows := dated_rows 1 [100, 101, 50] \<rparr>) ''BTC'')"
    using h1
      no_look_ahead [of 2 "dated_rows 1 [100, 101, 99]" "dated_rows 1 [100, 101, 50]"
        "plain_frame []" "''BTC''" "[]" "[]" "[]"]
    by blast
  have s: "map_sum id (filter (\<lambda>r. timestamp r \<le> 4))
         (screener_calculate_hv_metrics (close_rows 1 [100, 100, 100, 100, 98]) [2, 3])
       = map_sum id (filter (\<lambda>r. timestamp r \<le> 4))
           (screener_calculate_hv_metrics (close_rows 1 [100, 100, 100, 100, 50]) [2, 3])"
    using h2
      no_look_ahead [of 4 "[]" "[]" "plain_frame []" "''BTC''"
        "close_rows 1 [100, 100, 100, 100, 98]" "close_rows 1 [100, 100, 100, 100, 50]" "[2, 3]"]
    by blast
  show ?thesis using len c s by blast
qed

text \<open>
  Without the bound on the number of rows the claim fails on the collector, which
  returns no record at all for a frame of fewer than two rows. A frame of one row and the
  frame of that row followed by a later one agree up to the first date; the first frame
  has no record at that date, the second has one, with an annualized funding rate of
  \<open>0.0001 * 3 * 365 = 0.1095\<close>.
\<close>

theorem collector_single_row_counterexample:
  "filter (\<lambda>r. date r \<le> 1) [priced_row 1 100 \<lparr> funding_rate := Some 0.0001 \<rparr>]
     = filter (\<lambda>r. date r \<le> 1)
         [priced_row 1 100 \<lparr> funding_rate := Some 0.0001 \<rparr>,
          priced_row 2 101 \<lparr> funding_rate := Some 0.0001 \<rparr>]
   \<and> filter (\<lambda>e. rec_date e \<le> 1)
       (calculate_hv_metrics
          (plain_frame [priced_row 1 100 \<lparr> funding_rate := Some 0.0001 \<rparr>]
             \<lparr> has_funding := True \<rparr>) ''BTC'') = []
   \<and> map (\<lambda>e. get e AnnualizedFundingRate)
       (filter (\<lambda>e. rec_date e \<le> 1)
          (calculate_hv_metrics
             (plain_frame [priced_row 1 100 \<lparr> funding_rate := Some 0.0001 \<rparr>,
                           priced_row 2 101 \<lparr> funding_rate := Some 0.0001 \<rparr>]
                \<lparr> has_funding := True \<rparr>) ''BTC''))
       = [Some (Some 0.1095)]"
  by (simp add: calculate_hv_metrics_def plain_frame_def priced_row_def row_record_def get_def
      Let_def)

end
